theory Spec2Isabelle
  imports Complex_Main
begin

section \<open>Black-Scholes pricing, Greeks and implied volatility (Model.py)\<close>

text \<open>
  The module is embedded function by function. Python floats are read as real numbers:
  every arithmetic operation is the exact one, so rounding, overflow, infinities and NaN
  are outside the model. Exceptions are values: a function that can raise returns
  \<open>error + 'a\<close>, with \<open>Inl\<close> carrying the exception.

  What is proved of the values of the pricer is therefore a fact of exact arithmetic. The
  float program differs from it at the edges: \<open>math.exp\<close> raises \<open>OverflowError\<close> on a
  large argument, \<open>math.log\<close> and the division by \<open>sigma * sqrt T\<close> raise when a float
  quotient or product underflows to zero, \<open>math.erf\<close> saturates at \<open>1\<close> and \<open>-1\<close>, and a NaN
  passes the validation gate. The control flow of the solver, the number of pricing calls
  and the range of the volatilities it returns do not depend on the values of the pricer,
  and what is proved of them holds of the float program as well.
\<close>

subsection \<open>Errors\<close>

datatype error = ValueError string

definition msg_positive :: string where
  "msg_positive = ''S, K, T, sigma must be > 0.''"

definition msg_option :: string where
  "msg_option = ''option must be 'call' or 'put'' @ [CHR 0x27]"

subsection \<open>The library function \<open>math.erf\<close>\<close>

text \<open>
  \<open>math.erf\<close> belongs to Python's standard library, not to the module. It is the error
  function; here it is given by its Maclaurin series
  \<open>erf x = 2 / sqrt pi * (\<Sum>n. (-1)^n * x^(2n+1) / (n! * (2n+1)))\<close>.
\<close>

definition erf_term :: "real \<Rightarrow> nat \<Rightarrow> real" where
  "erf_term x n = (- 1) ^ n * x ^ (2 * n + 1) / (fact n * real (2 * n + 1))"

definition erf :: "real \<Rightarrow> real" where
  "erf x = 2 / sqrt pi * (\<Sum>n. erf_term x n)"

subsection \<open>Primitives\<close>

definition phi :: "real \<Rightarrow> real" where
  "phi x = exp (- 0.5 * x * x) / sqrt (2 * pi)"

definition Phi :: "real \<Rightarrow> real" where
  "Phi x = 0.5 * (1.0 + erf (x / sqrt 2.0))"

definition d1_d2 :: "real \<Rightarrow> real \<Rightarrow> real \<Rightarrow> real \<Rightarrow> real \<Rightarrow> real \<Rightarrow> error + (real \<times> real)" where
  "d1_d2 S K T r sigma q =
     (if list_ex (\<lambda>v. v \<le> 0) [S, K, T, sigma] then Inl (ValueError msg_positive)
      else
        let vsqrtT = sigma * sqrt T;
            d1 = (ln (S / K) + (r - q + 0.5 * sigma * sigma) * T) / vsqrtT;
            d2 = d1 - vsqrtT
        in Inr (d1, d2))"

subsection \<open>Pricer\<close>

definition bs_price ::
  "real \<Rightarrow> real \<Rightarrow> real \<Rightarrow> real \<Rightarrow> real \<Rightarrow> real \<Rightarrow> string \<Rightarrow> error + real" where
  "bs_price S K T r sigma q option =
     (case d1_d2 S K T r sigma q of
        Inl e \<Rightarrow> Inl e
      | Inr (d1, d2) \<Rightarrow>
          let disc_r = exp (- r * T);
              disc_q = exp (- q * T)
          in if option = ''call'' then
               Inr (S * disc_q * Phi d1 - K * disc_r * Phi d2)
             else if option = ''put'' then
               Inr (K * disc_r * Phi (- d2) - S * disc_q * Phi (- d1))
             else Inl (ValueError msg_option))"

record Greeks =
  delta :: real
  gamma :: real
  vega :: real
  theta :: real
  rho :: real

definition bs_greeks ::
  "real \<Rightarrow> real \<Rightarrow> real \<Rightarrow> real \<Rightarrow> real \<Rightarrow> real \<Rightarrow> string \<Rightarrow> error + Greeks" where
  "bs_greeks S K T r sigma q option =
     (case d1_d2 S K T r sigma q of
        Inl e \<Rightarrow> Inl e
      | Inr (d1, d2) \<Rightarrow>
          let disc_r = exp (- r * T);
              disc_q = exp (- q * T);
              pdf = phi d1;
              (delta', theta', rho') =
                (if option = ''call'' then
                   (disc_q * Phi d1,
                    - S * disc_q * pdf * sigma / (2 * sqrt T)
                      - r * K * disc_r * Phi d2
                      + q * S * disc_q * Phi d1,
                    K * T * disc_r * Phi d2)
                 else
                   (disc_q * (Phi d1 - 1.0),
                    - S * disc_q * pdf * sigma / (2 * sqrt T)
                      + r * K * disc_r * Phi (- d2)
                      - q * S * disc_q * Phi (- d1),
                    - K * T * disc_r * Phi (- d2)));
              gamma' = disc_q * pdf / (S * sigma * sqrt T);
              vega' = S * disc_q * pdf * sqrt T
          in Inr \<lparr>delta = delta', gamma = gamma', vega = vega', theta = theta', rho = rho'\<rparr>)"

subsection \<open>Solver\<close>

text \<open>
  A \<open>for\<close> loop over \<open>range n\<close> whose body may fall to the next iteration, \<open>break\<close>,
  \<open>return\<close> a float or raise. \<open>Next s\<close> as the result of the whole loop means that the
  range ran out with the loop variables at \<open>s\<close>.
\<close>

datatype 'a flow = Next 'a | Break 'a | Return real | Raise error

fun for_range :: "nat \<Rightarrow> ('a \<Rightarrow> 'a flow) \<Rightarrow> 'a \<Rightarrow> 'a flow" where
  "for_range 0 body s = Next s"
| "for_range (Suc n) body s =
     (case body s of
        Next s' \<Rightarrow> for_range n body s'
      | Break s' \<Rightarrow> Break s'
      | Return v \<Rightarrow> Return v
      | Raise e \<Rightarrow> Raise e)"

text \<open>The body of the Newton loop (lines 63 to 70); the loop variable is \<open>sigma\<close>.\<close>

definition newton_body ::
  "real \<Rightarrow> real \<Rightarrow> real \<Rightarrow> real \<Rightarrow> real \<Rightarrow> real \<Rightarrow> string \<Rightarrow> real \<Rightarrow> real \<Rightarrow> real flow" where
  "newton_body target_price S K T r q option tol sigma =
     (case bs_price S K T r sigma q option of
        Inl e \<Rightarrow> Raise e
      | Inr price \<Rightarrow>
          let diff = price - target_price
          in if \<bar>diff\<bar> < tol then Return (max (1 / 10 ^ 12) sigma)
             else
               (case bs_greeks S K T r sigma q option of
                  Inl e \<Rightarrow> Raise e
                | Inr g \<Rightarrow>
                    if vega g < 1 / 10 ^ 12 then Break sigma
                    else Next (min 5.0 (max (1 / 10 ^ 6) (sigma - diff / vega g)))))"

text \<open>The body of the bisection loop (lines 74 to 81); the loop variables are \<open>(lo, hi)\<close>.\<close>

definition bisect_body ::
  "real \<Rightarrow> real \<Rightarrow> real \<Rightarrow> real \<Rightarrow> real \<Rightarrow> real \<Rightarrow> string \<Rightarrow> real \<Rightarrow> real \<times> real \<Rightarrow> (real \<times> real) flow" where
  "bisect_body target_price S K T r q option tol lohi =
     (case lohi of (lo, hi) \<Rightarrow>
        let mid = 0.5 * (lo + hi)
        in (case bs_price S K T r mid q option of
              Inl e \<Rightarrow> Raise e
            | Inr pmid \<Rightarrow>
                if \<bar>pmid - target_price\<bar> < tol then Return mid
                else if pmid > target_price then Next (lo, mid)
                else Next (mid, hi)))"

text \<open>Lines 61 to 70: the Newton phase, from the seed to the end of the first loop.\<close>

definition newton_phase ::
  "real \<Rightarrow> real \<Rightarrow> real \<Rightarrow> real \<Rightarrow> real \<Rightarrow> real \<Rightarrow> string \<Rightarrow> real \<Rightarrow> real \<Rightarrow> int \<Rightarrow> real flow" where
  "newton_phase target_price S K T r q option seed tol max_iter =
     for_range (nat max_iter) (newton_body target_price S K T r q option tol)
       (max (1 / 10 ^ 6) seed)"

text \<open>Lines 72 to 82: the bisection fallback with its final return.\<close>

definition bisection_phase ::
  "real \<Rightarrow> real \<Rightarrow> real \<Rightarrow> real \<Rightarrow> real \<Rightarrow> real \<Rightarrow> string \<Rightarrow> real \<Rightarrow> error + real" where
  "bisection_phase target_price S K T r q option tol =
     (case for_range 200 (bisect_body target_price S K T r q option tol) (1 / 10 ^ 6, 5.0) of
        Return v \<Rightarrow> Inr v
      | Raise e \<Rightarrow> Inl e
      | Next (lo, hi) \<Rightarrow> Inr (0.5 * (lo + hi))
      | Break (lo, hi) \<Rightarrow> Inr (0.5 * (lo + hi)))"

definition implied_vol ::
  "real \<Rightarrow> real \<Rightarrow> real \<Rightarrow> real \<Rightarrow> real \<Rightarrow> real \<Rightarrow> string \<Rightarrow> real \<Rightarrow> real \<Rightarrow> int \<Rightarrow> error + real" where
  "implied_vol target_price S K T r q option seed tol max_iter =
     (case newton_phase target_price S K T r q option seed tol max_iter of
        Return v \<Rightarrow> Inr v
      | Raise e \<Rightarrow> Inl e
      | Next sigma \<Rightarrow> bisection_phase target_price S K T r q option tol
      | Break sigma \<Rightarrow> bisection_phase target_price S K T r q option tol)"

text \<open>The defaults of the keyword parameters: \<open>seed=0.2, tol=1e-8, max_iter=100\<close>.\<close>

definition implied_vol_default ::
  "real \<Rightarrow> real \<Rightarrow> real \<Rightarrow> real \<Rightarrow> real \<Rightarrow> real \<Rightarrow> string \<Rightarrow> error + real" where
  "implied_vol_default target_price S K T r q option =
     implied_vol target_price S K T r q option 0.2 (1 / 10 ^ 8) 100"

text \<open>Line 67 reads the field \<open>vega\<close> of the record that \<open>bs_greeks\<close> returns.\<close>

definition vega_of :: "real \<Rightarrow> real \<Rightarrow> real \<Rightarrow> real \<Rightarrow> real \<Rightarrow> string \<Rightarrow> real \<Rightarrow> error + real" where
  "vega_of S K T r q option sigma =
     (case bs_greeks S K T r sigma q option of Inl e \<Rightarrow> Inl e | Inr g \<Rightarrow> Inr (vega g))"

text \<open>
  A loop that ended by running out of its range or by \<open>break\<close> hands control to the
  statement after it.
\<close>

fun falls_through :: "'a flow \<Rightarrow> bool" where
  "falls_through (Next s) = True"
| "falls_through (Break s) = True"
| "falls_through (Return v) = False"
| "falls_through (Raise e) = False"

subsection \<open>Python floats at the validation gate\<close>

text \<open>
  A Python float is a finite number, one of the two infinities or NaN, and every ordered
  comparison with NaN is false. Line 12 compares each of \<open>S\<close>, \<open>K\<close>, \<open>T\<close>, \<open>sigma\<close>
  with zero by \<open>v <= 0\<close>; \<open>gate_raises\<close> is that test on floats, and \<open>gt_zero\<close> is
  \<open>v > 0\<close>, the condition that the message of line 13 demands.
\<close>

datatype pyfloat = Finite real | PosInf | NegInf | NaN

fun le_zero :: "pyfloat \<Rightarrow> bool" where
  "le_zero (Finite x) = (x \<le> 0)"
| "le_zero PosInf = False"
| "le_zero NegInf = True"
| "le_zero NaN = False"

fun gt_zero :: "pyfloat \<Rightarrow> bool" where
  "gt_zero (Finite x) = (0 < x)"
| "gt_zero PosInf = True"
| "gt_zero NegInf = False"
| "gt_zero NaN = False"

definition gate_raises :: "pyfloat \<Rightarrow> pyfloat \<Rightarrow> pyfloat \<Rightarrow> pyfloat \<Rightarrow> bool" where
  "gate_raises S K T sigma = list_ex le_zero [S, K, T, sigma]"

subsection \<open>The solver with its calls of \<open>bs_price\<close> counted\<close>

text \<open>
  The same code once more, now threading a counter through it: every call of \<open>bs_price\<close>
  (line 63 in the Newton loop, line 75 in the bisection loop) adds one. The result is
  paired with the number of calls made so far.
\<close>

definition bs_price_counted ::
  "real \<Rightarrow> real \<Rightarrow> real \<Rightarrow> real \<Rightarrow> real \<Rightarrow> real \<Rightarrow> string \<Rightarrow> nat \<Rightarrow> (error + real) \<times> nat" where
  "bs_price_counted S K T r sigma q option calls =
     (bs_price S K T r sigma q option, Suc calls)"

fun for_range_counted ::
  "nat \<Rightarrow> ('a \<Rightarrow> nat \<Rightarrow> 'a flow \<times> nat) \<Rightarrow> 'a \<Rightarrow> nat \<Rightarrow> 'a flow \<times> nat" where
  "for_range_counted 0 body s calls = (Next s, calls)"
| "for_range_counted (Suc n) body s calls =
     (case body s calls of
        (Next s', c) \<Rightarrow> for_range_counted n body s' c
      | (Break s', c) \<Rightarrow> (Break s', c)
      | (Return v, c) \<Rightarrow> (Return v, c)
      | (Raise e, c) \<Rightarrow> (Raise e, c))"

definition newton_body_counted ::
  "real \<Rightarrow> real \<Rightarrow> real \<Rightarrow> real \<Rightarrow> real \<Rightarrow> real \<Rightarrow> string \<Rightarrow> real \<Rightarrow> real \<Rightarrow> nat \<Rightarrow> real flow \<times> nat" where
  "newton_body_counted target_price S K T r q option tol sigma calls =
     (case bs_price_counted S K T r sigma q option calls of
        (Inl e, c) \<Rightarrow> (Raise e, c)
      | (Inr price, c) \<Rightarrow>
          let diff = price - target_price
          in if \<bar>diff\<bar> < tol then (Return (max (1 / 10 ^ 12) sigma), c)
             else
               (case bs_greeks S K T r sigma q option of
                  Inl e \<Rightarrow> (Raise e, c)
                | Inr g \<Rightarrow>
                    if vega g < 1 / 10 ^ 12 then (Break sigma, c)
                    else (Next (min 5.0 (max (1 / 10 ^ 6) (sigma - diff / vega g))), c)))"

definition bisect_body_counted ::
  "real \<Rightarrow> real \<Rightarrow> real \<Rightarrow> real \<Rightarrow> real \<Rightarrow> real \<Rightarrow> string \<Rightarrow> real \<Rightarrow> real \<times> real \<Rightarrow> nat
     \<Rightarrow> (real \<times> real) flow \<times> nat" where
  "bisect_body_counted target_price S K T r q option tol lohi calls =
     (case lohi of (lo, hi) \<Rightarrow>
        let mid = 0.5 * (lo + hi)
        in (case bs_price_counted S K T r mid q option calls of
              (Inl e, c) \<Rightarrow> (Raise e, c)
            | (Inr pmid, c) \<Rightarrow>
                if \<bar>pmid - target_price\<bar> < tol then (Return mid, c)
                else if pmid > target_price then (Next (lo, mid), c)
                else (Next (mid, hi), c)))"

definition bisection_phase_counted ::
  "real \<Rightarrow> real \<Rightarrow> real \<Rightarrow> real \<Rightarrow> real \<Rightarrow> real \<Rightarrow> string \<Rightarrow> real \<Rightarrow> nat \<Rightarrow> (error + real) \<times> nat" where
  "bisection_phase_counted target_price S K T r q option tol calls =
     (case for_range_counted 200 (bisect_body_counted target_price S K T r q option tol)
             (1 / 10 ^ 6, 5.0) calls of
        (Return v, c) \<Rightarrow> (Inr v, c)
      | (Raise e, c) \<Rightarrow> (Inl e, c)
      | (Next (lo, hi), c) \<Rightarrow> (Inr (0.5 * (lo + hi)), c)
      | (Break (lo, hi), c) \<Rightarrow> (Inr (0.5 * (lo + hi)), c))"

definition implied_vol_counted ::
  "real \<Rightarrow> real \<Rightarrow> real \<Rightarrow> real \<Rightarrow> real \<Rightarrow> real \<Rightarrow> string \<Rightarrow> real \<Rightarrow> real \<Rightarrow> int \<Rightarrow> (error + real) \<times> nat" where
  "implied_vol_counted target_price S K T r q option seed tol max_iter =
     (case for_range_counted (nat max_iter)
             (newton_body_counted target_price S K T r q option tol)
             (max (1 / 10 ^ 6) seed) 0 of
        (Return v, c) \<Rightarrow> (Inr v, c)
      | (Raise e, c) \<Rightarrow> (Inl e, c)
      | (Next sigma, c) \<Rightarrow> bisection_phase_counted target_price S K T r q option tol c
      | (Break sigma, c) \<Rightarrow> bisection_phase_counted target_price S K T r q option tol c)"

section \<open>The specification's formulas and state machine\<close>

text \<open>
  The definitions of this section follow the words of the specification, not the code;
  the theorems below compare the two.
\<close>

subsection \<open>Option type and closed form\<close>

datatype option_type = Call | Put

text \<open>The string by which the module names each option type.\<close>

fun tag :: "option_type \<Rightarrow> string" where
  "tag Call = ''call''"
| "tag Put = ''put''"

definition d1_closed :: "real \<Rightarrow> real \<Rightarrow> real \<Rightarrow> real \<Rightarrow> real \<Rightarrow> real \<Rightarrow> real" where
  "d1_closed S K T r sigma q =
     (ln (S / K) + (r - q + 0.5 * sigma\<^sup>2) * T) / (sigma * sqrt T)"

definition d2_closed :: "real \<Rightarrow> real \<Rightarrow> real \<Rightarrow> real \<Rightarrow> real \<Rightarrow> real \<Rightarrow> real" where
  "d2_closed S K T r sigma q = d1_closed S K T r sigma q - sigma * sqrt T"

fun closed_form ::
  "option_type \<Rightarrow> real \<Rightarrow> real \<Rightarrow> real \<Rightarrow> real \<Rightarrow> real \<Rightarrow> real \<Rightarrow> real" where
  "closed_form Call S K T r sigma q =
     S * exp (- (q * T)) * Phi (d1_closed S K T r sigma q)
       - K * exp (- (r * T)) * Phi (d2_closed S K T r sigma q)"
| "closed_form Put S K T r sigma q =
     K * exp (- (r * T)) * Phi (- d2_closed S K T r sigma q)
       - S * exp (- (q * T)) * Phi (- d1_closed S K T r sigma q)"

subsection \<open>The two phases of the solver\<close>

definition clamp :: "real \<Rightarrow> real \<Rightarrow> real \<Rightarrow> real" where
  "clamp x lo hi = (if x < lo then lo else if hi < x then hi else x)"

text \<open>
  How a phase ends: with a volatility, by handing over to the next phase, or with the
  error of a pricing call.
\<close>

datatype outcome = Converged real | FallThrough | Failed error

text \<open>
  Newton phase, with \<open>n\<close> steps of the budget left and the guess \<open>sigma\<close>; \<open>price\<close>
  and \<open>vega_at\<close> are the pricer and its vega as functions of the volatility.
\<close>

fun newton_spec ::
  "(real \<Rightarrow> error + real) \<Rightarrow> (real \<Rightarrow> error + real) \<Rightarrow> real \<Rightarrow> real \<Rightarrow> nat \<Rightarrow> real \<Rightarrow> outcome" where
  "newton_spec price vega_at target tol 0 sigma = FallThrough"
| "newton_spec price vega_at target tol (Suc n) sigma =
     (case price sigma of
        Inl e \<Rightarrow> Failed e
      | Inr p \<Rightarrow>
          if \<bar>p - target\<bar> < tol then Converged (max (1 / 10 ^ 12) sigma)
          else
            (case vega_at sigma of
               Inl e \<Rightarrow> Failed e
             | Inr v \<Rightarrow>
                 if v < 1 / 10 ^ 12 then FallThrough
                 else newton_spec price vega_at target tol n
                        (clamp (sigma - (p - target) / v) (1 / 10 ^ 6) 5)))"

text \<open>
  Bisection phase, with \<open>n\<close> steps left on the bracket \<open>[lo, hi]\<close>; it never hands over,
  and after the last step it answers with the midpoint.
\<close>

fun bisect_spec ::
  "(real \<Rightarrow> error + real) \<Rightarrow> real \<Rightarrow> real \<Rightarrow> nat \<Rightarrow> real \<Rightarrow> real \<Rightarrow> error + real" where
  "bisect_spec price target tol 0 lo hi = Inr ((lo + hi) / 2)"
| "bisect_spec price target tol (Suc n) lo hi =
     (let mid = (lo + hi) / 2
      in (case price mid of
            Inl e \<Rightarrow> Inl e
          | Inr p \<Rightarrow>
              if \<bar>p - target\<bar> < tol then Inr mid
              else if p > target then bisect_spec price target tol n lo mid
              else bisect_spec price target tol n mid hi))"

section \<open>Auxiliary notions for the proofs\<close>

text \<open>The coefficients of the Maclaurin series of \<open>erf\<close>, indexed by the power of \<open>x\<close>.\<close>

definition erf_coeff :: "nat \<Rightarrow> real" where
  "erf_coeff k =
     (if even k then 0 else (- 1) ^ ((k - 1) div 2) / (fact ((k - 1) div 2) * real k))"

section \<open>The error function\<close>

lemma erf_term_bound: "norm (erf_term x n) \<le> \<bar>x\<bar> * (inverse (fact n) * (x\<^sup>2) ^ n)"
proof -
  have pw: "\<bar>x\<bar> ^ (2 * n + 1) = \<bar>x\<bar> * (x\<^sup>2) ^ n"
    by (simp add: power_mult)
  have "norm (erf_term x n) = \<bar>x\<bar> ^ (2 * n + 1) / (fact n * real (2 * n + 1))"
    by (simp add: erf_term_def abs_mult power_abs)
  also have "\<dots> \<le> \<bar>x\<bar> ^ (2 * n + 1) / (fact n * 1)"
    by (intro divide_left_mono mult_left_mono) auto
  also have "\<dots> = \<bar>x\<bar> * (inverse (fact n) * (x\<^sup>2) ^ n)"
    unfolding pw by (simp add: divide_inverse)
  finally show ?thesis .
qed

lemma erf_term_summable: "summable (erf_term x)"
proof (rule summable_comparison_test')
  show "summable (\<lambda>n. \<bar>x\<bar> * (inverse (fact n) * (x\<^sup>2) ^ n))"
    by (intro summable_mult summable_exp)
  show "\<And>n. n \<ge> 0 \<Longrightarrow> norm (erf_term x n) \<le> \<bar>x\<bar> * (inverse (fact n) * (x\<^sup>2) ^ n)"
    by (rule erf_term_bound)
qed

lemma erf_term_minus: "erf_term (- x) n = - erf_term x n"
  by (simp add: erf_term_def)

lemma erf_minus: "erf (- x) = - erf x"
  using erf_term_summable [of x]
  by (simp add: erf_def erf_term_minus suminf_minus)

lemma erf_zero: "erf 0 = 0"
  using erf_minus [of 0] by simp

lemma erf_coeff_term: "erf_coeff k * x ^ k = (if even k then 0 else erf_term x ((k - 1) div 2))"
proof (cases "even k")
  case True then show ?thesis by (simp add: erf_coeff_def)
next
  case False
  then obtain n where k: "k = 2 * n + 1" by (auto elim: oddE)
  show ?thesis by (simp add: k erf_coeff_def erf_term_def)
qed

lemma erf_powser_sums: "(\<lambda>k. erf_coeff k * x ^ k) sums (\<Sum>n. erf_term x n)"
  unfolding erf_coeff_term
  by (rule sums_if') (rule summable_sums [OF erf_term_summable])

lemma diffs_erf_coeff: "diffs erf_coeff k * x ^ k = (if even k then (- (x\<^sup>2)) ^ (k div 2) /\<^sub>R fact (k div 2) else 0)"
proof (cases "even k")
  case True
  then obtain n where k: "k = 2 * n" by (auto elim: evenE)
  have 1: "(- (x\<^sup>2)) ^ n = (- 1) ^ n * x ^ (2 * n)"
    by (simp add: power_mult power_minus [of "x\<^sup>2"])
  have "diffs erf_coeff k = real (Suc (2 * n)) * ((- 1) ^ n / (fact n * real (Suc (2 * n))))"
    by (simp add: k diffs_def erf_coeff_def)
  also have "\<dots> = (- 1) ^ n / fact n"
    by (simp del: of_nat_Suc)
  finally show ?thesis
    by (simp add: k 1 divide_inverse mult.commute)
next
  case False then show ?thesis by (simp add: diffs_def erf_coeff_def)
qed

lemma diffs_erf_sums: "(\<lambda>k. diffs erf_coeff k * x ^ k) sums exp (- (x\<^sup>2))"
proof -
  have "(\<lambda>k. if even k then (- (x\<^sup>2)) ^ (k div 2) /\<^sub>R fact (k div 2) else (\<lambda>_. 0::real) ((k - 1) div 2)) sums (0 + exp (- (x\<^sup>2)))"
    by (rule sums_if) (use exp_converges [of "- (x\<^sup>2)"] in simp_all)
  then show ?thesis by (simp add: diffs_erf_coeff)
qed

lemma DERIV_erf: "DERIV erf x :> 2 / sqrt pi * exp (- (x\<^sup>2))"
proof -
  have eq: "erf = (\<lambda>x. 2 / sqrt pi * (\<Sum>k. erf_coeff k * x ^ k))"
    using erf_powser_sums by (auto simp: erf_def sums_iff fun_eq_iff)
  have "DERIV (\<lambda>x. \<Sum>k. erf_coeff k * x ^ k) x :> (\<Sum>k. diffs erf_coeff k * x ^ k)"
    by (rule termdiffs_strong_converges_everywhere) (use erf_powser_sums in \<open>auto simp: sums_iff\<close>)
  also have "(\<Sum>k. diffs erf_coeff k * x ^ k) = exp (- (x\<^sup>2))"
    using diffs_erf_sums by (simp add: sums_iff)
  finally show ?thesis unfolding eq
    by (rule DERIV_cmult)
qed

section \<open>Pricing: validation, closed form, parity and monotonicity\<close>

text \<open>
  In exact arithmetic the pricer returns the closed form for strictly positive \<open>S\<close>,
  \<open>K\<close>, \<open>T\<close>, \<open>sigma\<close> (\<open>bs_price_valid\<close>), and the closed form is strictly increasing
  in \<open>sigma\<close> (\<open>closed_form_mono\<close>). Neither is a fact of the float program, which can
  raise on such inputs and whose price is flat where \<open>Phi\<close> saturates.
\<close>

lemma d1_d2_valid:
  "0 < S \<Longrightarrow> 0 < K \<Longrightarrow> 0 < T \<Longrightarrow> 0 < sigma \<Longrightarrow>
   d1_d2 S K T r sigma q = Inr (d1_closed S K T r sigma q, d2_closed S K T r sigma q)"
  by (simp add: d1_d2_def d1_closed_def d2_closed_def Let_def power2_eq_square)

lemma d1_d2_invalid:
  "S \<le> 0 \<or> K \<le> 0 \<or> T \<le> 0 \<or> sigma \<le> 0 \<Longrightarrow>
   d1_d2 S K T r sigma q = Inl (ValueError msg_positive)"
  by (auto simp add: d1_d2_def)

lemma bs_price_valid:
  "0 < S \<Longrightarrow> 0 < K \<Longrightarrow> 0 < T \<Longrightarrow> 0 < sigma \<Longrightarrow>
   bs_price S K T r sigma q (tag ot) = Inr (closed_form ot S K T r sigma q)"
  by (cases ot) (simp_all add: bs_price_def d1_d2_valid)

lemma Phi_minus: "Phi (- x) = 1 - Phi x"
  by (simp add: Phi_def erf_minus field_simps)

lemma parity_closed:
  "closed_form Call S K T r sigma q - closed_form Put S K T r sigma q
     = S * exp (- (q * T)) - K * exp (- (r * T))"
  by (simp add: Phi_minus algebra_simps)

lemma DERIV_Phi: "DERIV Phi x :> phi x"
proof -
  have "DERIV (\<lambda>x. x / sqrt 2) x :> 1 / sqrt 2"
    by (rule DERIV_cdivide) (rule DERIV_ident)
  then have "DERIV (\<lambda>x. erf (x / sqrt 2)) x :> 2 / sqrt pi * exp (- ((x / sqrt 2)\<^sup>2)) * (1 / sqrt 2)"
    by (rule DERIV_chain2 [OF DERIV_erf])
  then have "DERIV (\<lambda>x. 1 + erf (x / sqrt 2)) x :> 0 + 2 / sqrt pi * exp (- ((x / sqrt 2)\<^sup>2)) * (1 / sqrt 2)"
    by (rule DERIV_add [OF DERIV_const])
  then have "DERIV (\<lambda>x. 0.5 * (1 + erf (x / sqrt 2))) x :> 0.5 * (0 + 2 / sqrt pi * exp (- ((x / sqrt 2)\<^sup>2)) * (1 / sqrt 2))"
    by (rule DERIV_cmult)
  then have "DERIV (\<lambda>x. 0.5 * (1.0 + erf (x / sqrt 2.0))) x :> 0.5 * (2 / sqrt pi * exp (- ((x / sqrt 2)\<^sup>2)) * (1 / sqrt 2))"
    by simp
  also have "0.5 * (2 / sqrt pi * exp (- ((x / sqrt 2)\<^sup>2)) * (1 / sqrt 2)) = phi x"
  proof -
    have 1: "(x / sqrt 2)\<^sup>2 = 0.5 * x * x"
      by (simp add: power_divide power2_eq_square)
    have 2: "sqrt 2 * sqrt 2 = (2::real)"
      by simp
    have 3: "(0.5::real) * (2 / sqrt pi * e * (1 / sqrt 2)) = e / sqrt (2 * pi)" for e
      using 2 by (simp add: real_sqrt_mult field_simps)
    show ?thesis
      unfolding 1 3 by (simp add: phi_def)
  qed
  finally show ?thesis
    by (simp add: Phi_def [abs_def])
qed

lemma phi_pos: "0 < phi x"
  by (simp add: phi_def)

lemma DERIV_d1:
  assumes "0 < T" "0 < s"
  shows "DERIV (\<lambda>s. d1_closed S K T r s q) s :> sqrt T / 2 - (ln (S / K) + (r - q) * T) / (s\<^sup>2 * sqrt T)"
  unfolding d1_closed_def using assms
  by (auto intro!: derivative_eq_intros simp: field_simps power2_eq_square)



lemma vega_identity:
  assumes "0 < S" "0 < K" "0 < T" "0 < s"
  shows "K * exp (- (r * T)) * phi (d2_closed S K T r s q)
           = S * exp (- (q * T)) * phi (d1_closed S K T r s q)"
proof -
  define d1 where "d1 = d1_closed S K T r s q"
  define v where "v = s * sqrt T"
  have v: "0 < v" using assms by (simp add: v_def)
  have vv: "v * v = s * s * T"
    using assms by (simp add: v_def)
  have dv: "d1 * v = ln (S / K) + (r - q + 0.5 * s\<^sup>2) * T"
    using assms by (simp add: d1_def d1_closed_def v_def)
  have "- 0.5 * (d1 - v) * (d1 - v) = - 0.5 * d1 * d1 + d1 * v - 0.5 * (v * v)"
    by (simp add: field_simps)
  also have "\<dots> = - 0.5 * d1 * d1 + (ln (S / K) + (r * T - q * T))"
    unfolding dv vv by (simp add: algebra_simps power2_eq_square)
  finally have e: "- 0.5 * (d1 - v) * (d1 - v) = - 0.5 * d1 * d1 + (ln (S / K) + (r * T - q * T))" .
  have "exp (- 0.5 * d1 * d1 + (ln (S / K) + (r * T - q * T)))
          = exp (- 0.5 * d1 * d1) * (exp (ln (S / K)) * (exp (r * T) * exp (- (q * T))))"
    by (simp only: exp_add diff_conv_add_uminus)
  also have "exp (ln (S / K)) = S / K"
    using assms by simp
  finally have "exp (- 0.5 * (d1 - v) * (d1 - v)) = exp (- 0.5 * d1 * d1) * (S / K * (exp (r * T) * exp (- (q * T))))"
    unfolding e .
  then have "K * exp (- (r * T)) * exp (- 0.5 * (d1 - v) * (d1 - v))
               = S * exp (- (q * T)) * exp (- 0.5 * d1 * d1)"
    using assms by (simp add: exp_minus field_simps)
  then show ?thesis
    unfolding d2_closed_def phi_def d1_def [symmetric] v_def [symmetric]
    by (simp add: field_simps)
qed

lemma DERIV_closed_call:
  assumes "0 < S" "0 < K" "0 < T" "0 < s"
  shows "DERIV (\<lambda>s. closed_form Call S K T r s q) s
           :> S * exp (- (q * T)) * phi (d1_closed S K T r s q) * sqrt T"
proof -
  define D where "D = sqrt T / 2 - (ln (S / K) + (r - q) * T) / (s\<^sup>2 * sqrt T)"
  have d1: "DERIV (\<lambda>s. d1_closed S K T r s q) s :> D"
    unfolding D_def using assms by (intro DERIV_d1)
  have d2: "DERIV (\<lambda>s. d2_closed S K T r s q) s :> D - sqrt T"
    unfolding d2_closed_def
    by (rule DERIV_diff [OF d1]) (auto intro!: derivative_eq_intros)
  have "DERIV (\<lambda>s. S * exp (- (q * T)) * Phi (d1_closed S K T r s q)
                   - K * exp (- (r * T)) * Phi (d2_closed S K T r s q)) s
          :> S * exp (- (q * T)) * (phi (d1_closed S K T r s q) * D)
               - K * exp (- (r * T)) * (phi (d2_closed S K T r s q) * (D - sqrt T))"
    by (intro DERIV_diff DERIV_cmult DERIV_chain2 [OF DERIV_Phi] d1 d2)
  also have "S * exp (- (q * T)) * (phi (d1_closed S K T r s q) * D)
               - K * exp (- (r * T)) * (phi (d2_closed S K T r s q) * (D - sqrt T))
             = S * exp (- (q * T)) * phi (d1_closed S K T r s q) * sqrt T"
    using vega_identity [OF assms, of r q] by (simp add: algebra_simps)
  finally show ?thesis by simp
qed

lemma closed_call_mono:
  assumes "0 < S" "0 < K" "0 < T" "0 < a" "a < b"
  shows "closed_form Call S K T r a q < closed_form Call S K T r b q"
proof (rule DERIV_pos_imp_increasing [OF \<open>a < b\<close>])
  fix x assume "a \<le> x" "x \<le> b"
  then have x: "0 < x" using assms by simp
  have "0 < S * exp (- (q * T)) * phi (d1_closed S K T r x q) * sqrt T"
    using assms by (simp add: phi_pos)
  then show "\<exists>y. DERIV (\<lambda>s. closed_form Call S K T r s q) x :> y \<and> 0 < y"
    using DERIV_closed_call [OF assms(1-3) x] by blast
qed

lemma closed_form_mono:
  assumes "0 < S" "0 < K" "0 < T" "0 < a" "a < b"
  shows "closed_form ot S K T r a q < closed_form ot S K T r b q"
proof (cases ot)
  case Call
  then show ?thesis using closed_call_mono [OF assms] by simp
next
  case Put
  have "closed_form Put S K T r s q = closed_form Call S K T r s q - (S * exp (- (q * T)) - K * exp (- (r * T)))" for s
    using parity_closed [of S K T r s q] by simp
  then show ?thesis using closed_call_mono [OF assms, of r q] Put by simp
qed

section \<open>The solver against the specification's phases\<close>

lemma clamp_min_max: "min 5.0 (max (1 / 10 ^ 6) x) = clamp x (1 / 10 ^ 6) 5"
  by (simp add: clamp_def min_def max_def)

lemma newton_loop_refines:
  "(case newton_spec (\<lambda>s. bs_price S K T r s q option) (vega_of S K T r q option) target tol n sigma of
      Converged v \<Rightarrow> for_range n (newton_body target S K T r q option tol) sigma = Return v
    | FallThrough \<Rightarrow> falls_through (for_range n (newton_body target S K T r q option tol) sigma)
    | Failed e \<Rightarrow> for_range n (newton_body target S K T r q option tol) sigma = Raise e)"
proof (induction n arbitrary: sigma)
  case 0
  show ?case by simp
next
  case (Suc n)
  let ?body = "newton_body target S K T r q option tol"
  let ?spec = "newton_spec (\<lambda>s. bs_price S K T r s q option) (vega_of S K T r q option) target tol"
  show ?case
  proof (cases "bs_price S K T r sigma q option")
    case (Inl e)
    then show ?thesis by (simp add: newton_body_def)
  next
    case (Inr p)
    show ?thesis
    proof (cases "\<bar>p - target\<bar> < tol")
      case True
      with Inr show ?thesis by (simp add: newton_body_def)
    next
      case far: False
      show ?thesis
      proof (cases "bs_greeks S K T r sigma q option")
        case (Inl e)
        with Inr far show ?thesis by (simp add: newton_body_def vega_of_def)
      next
        case g: (Inr g)
        show ?thesis
        proof (cases "vega g < 1 / 10 ^ 12")
          case True
          with Inr far g show ?thesis by (simp add: newton_body_def vega_of_def)
        next
          case False
          let ?next = "clamp (sigma - (p - target) / vega g) (1 / 10 ^ 6) 5"
          have "?body sigma = Next ?next"
            using Inr far g False clamp_min_max [of "sigma - (p - target) / vega g"]
            by (simp add: newton_body_def)
          then have code: "for_range (Suc n) ?body sigma = for_range n ?body ?next"
            by simp
          have spec: "?spec (Suc n) sigma = ?spec n ?next"
            using Inr far g False by (simp add: vega_of_def)
          show ?thesis
            unfolding code spec by (rule Suc.IH)
        qed
      qed
    qed
  qed
qed

lemma bisect_loop_refines:
  "(case for_range n (bisect_body target S K T r q option tol) (lo, hi) of
      Return v \<Rightarrow> Inr v
    | Raise e \<Rightarrow> Inl e
    | Next (lo', hi') \<Rightarrow> Inr (0.5 * (lo' + hi'))
    | Break (lo', hi') \<Rightarrow> Inr (0.5 * (lo' + hi')))
   = bisect_spec (\<lambda>s. bs_price S K T r s q option) target tol n lo hi"
proof (induction n arbitrary: lo hi)
  case 0
  show ?case by simp
next
  case (Suc n)
  show ?case
  proof (cases "bs_price S K T r ((lo + hi) / 2) q option")
    case (Inl e)
    then show ?thesis by (simp add: bisect_body_def)
  next
    case (Inr p)
    then show ?thesis
      using Suc.IH [of lo "(lo + hi) / 2"] Suc.IH [of "(lo + hi) / 2" hi]
      by (simp add: bisect_body_def Let_def)
  qed
qed

lemma bisection_phase_spec:
  "bisection_phase target S K T r q option tol
     = bisect_spec (\<lambda>s. bs_price S K T r s q option) target tol 200 (1 / 10 ^ 6) 5"
  using bisect_loop_refines [of 200 target S K T r q option tol "1 / 10 ^ 6" 5]
  by (simp add: bisection_phase_def)

section \<open>Range of the solver's results\<close>

lemma for_range_Raise:
  "for_range n body s = Raise e \<Longrightarrow> \<exists>s'. body s' = Raise e"
proof (induction n arbitrary: s)
  case 0
  then show ?case by simp
next
  case (Suc n)
  then show ?case
    by (cases "body s") auto
qed

lemma bs_price_errors:
  "bs_price S K T r sigma q option = Inl e \<Longrightarrow>
   e = ValueError msg_positive \<or> e = ValueError msg_option"
  by (auto simp: bs_price_def d1_d2_def Let_def split: if_splits)

lemma bs_greeks_errors:
  "bs_greeks S K T r sigma q option = Inl e \<Longrightarrow> e = ValueError msg_positive"
  by (auto simp: bs_greeks_def d1_d2_def Let_def split: if_splits prod.splits)

lemma newton_body_Raise:
  "newton_body target S K T r q option tol sigma = Raise e \<Longrightarrow>
   e = ValueError msg_positive \<or> e = ValueError msg_option"
  by (auto simp: newton_body_def Let_def split: sum.splits if_splits
      dest: bs_price_errors bs_greeks_errors)

lemma min_max_range:
  "1 / 10 ^ 6 \<le> min 5.0 (max (1 / 10 ^ 6) (x::real)) \<and> min 5.0 (max (1 / 10 ^ 6) x) \<le> 5"
  by (simp add: min_def max_def)

lemma newton_body_Next:
  assumes "newton_body target S K T r q option tol sigma = Next s'"
  shows "1 / 10 ^ 6 \<le> s' \<and> s' \<le> 5"
proof -
  from assms obtain x where "s' = min 5.0 (max (1 / 10 ^ 6) x)"
    by (auto simp: newton_body_def Let_def split: sum.splits if_splits)
  then show ?thesis
    using min_max_range [of x] by simp
qed

lemma newton_body_Return:
  "newton_body target S K T r q option tol sigma = Return v \<Longrightarrow> v = max (1 / 10 ^ 12) sigma"
  by (auto simp: newton_body_def Let_def split: sum.splits if_splits)

lemma newton_loop_Return:
  "for_range n (newton_body target S K T r q option tol) sigma = Return v \<Longrightarrow>
   1 / 10 ^ 6 \<le> sigma \<Longrightarrow> sigma \<le> M \<Longrightarrow> 5 \<le> M \<Longrightarrow> 1 / 10 ^ 6 \<le> v \<and> v \<le> M"
proof (induction n arbitrary: sigma)
  case 0
  then show ?case by simp
next
  case (Suc n)
  let ?body = "newton_body target S K T r q option tol"
  show ?case
  proof (cases "?body sigma")
    case (Next s')
    with Suc.prems(1) have loop: "for_range n ?body s' = Return v"
      by simp
    from newton_body_Next [OF Next] Suc.prems(4)
    have "1 / 10 ^ 6 \<le> s'" "s' \<le> M" by simp_all
    with loop show ?thesis
      using Suc.prems(4) by (rule Suc.IH)
  next
    case (Return w)
    with Suc.prems(1) have "w = v" by simp
    with newton_body_Return [OF Return] Suc.prems(2,3) show ?thesis
      by (simp add: max_def)
  next
    case (Break s')
    with Suc.prems(1) show ?thesis by simp
  next
    case (Raise e)
    with Suc.prems(1) show ?thesis by simp
  qed
qed

lemma bisect_spec_range:
  "bisect_spec price target tol n lo hi = Inr v \<Longrightarrow> lo \<le> hi \<Longrightarrow> lo \<le> v \<and> v \<le> hi"
proof (induction n arbitrary: lo hi)
  case 0
  then show ?case by auto
next
  case (Suc n)
  let ?mid = "(lo + hi) / 2"
  have mid: "lo \<le> ?mid" "?mid \<le> hi" using Suc.prems(2) by simp_all
  show ?case
  proof (cases "price ?mid")
    case (Inl e)
    with Suc.prems show ?thesis by (simp add: Let_def)
  next
    case (Inr p)
    consider "\<bar>p - target\<bar> < tol" | "\<not> \<bar>p - target\<bar> < tol" "p > target"
      | "\<not> \<bar>p - target\<bar> < tol" "\<not> p > target" by blast
    then show ?thesis
    proof cases
      case 1
      with Inr Suc.prems mid show ?thesis by (simp add: Let_def)
    next
      case 2
      with Inr Suc.prems have "bisect_spec price target tol n lo ?mid = Inr v"
        by (simp add: Let_def)
      from Suc.IH [OF this mid(1)] mid show ?thesis by simp
    next
      case 3
      with Inr Suc.prems have "bisect_spec price target tol n ?mid hi = Inr v"
        by (simp add: Let_def)
      from Suc.IH [OF this mid(2)] mid show ?thesis by simp
    qed
  qed
qed

lemma bisect_spec_errors:
  "bisect_spec price target tol n lo hi = Inl e \<Longrightarrow> lo \<le> hi \<Longrightarrow>
   \<exists>s. lo \<le> s \<and> s \<le> hi \<and> price s = Inl e"
proof (induction n arbitrary: lo hi)
  case 0
  then show ?case by simp
next
  case (Suc n)
  let ?mid = "(lo + hi) / 2"
  have mid: "lo \<le> ?mid" "?mid \<le> hi" using Suc.prems(2) by simp_all
  show ?case
  proof (cases "price ?mid")
    case (Inl e')
    with Suc.prems have "price ?mid = Inl e" by (simp add: Let_def)
    with mid show ?thesis by blast
  next
    case (Inr p)
    consider "\<bar>p - target\<bar> < tol" | "\<not> \<bar>p - target\<bar> < tol" "p > target"
      | "\<not> \<bar>p - target\<bar> < tol" "\<not> p > target" by blast
    then show ?thesis
    proof cases
      case 1
      with Inr Suc.prems show ?thesis by (simp add: Let_def)
    next
      case 2
      with Inr Suc.prems have "bisect_spec price target tol n lo ?mid = Inl e"
        by (simp add: Let_def)
      from Suc.IH [OF this mid(1)] obtain s where "lo \<le> s" "s \<le> ?mid" "price s = Inl e"
        by blast
      with mid show ?thesis by (intro exI [of _ s]) simp
    next
      case 3
      with Inr Suc.prems have "bisect_spec price target tol n ?mid hi = Inl e"
        by (simp add: Let_def)
      from Suc.IH [OF this mid(2)] obtain s where "?mid \<le> s" "s \<le> hi" "price s = Inl e"
        by blast
      with mid show ?thesis by (intro exI [of _ s]) simp
    qed
  qed
qed

lemma implied_vol_result:
  "(case implied_vol target S K T r q option seed tol max_iter of
      Inr v \<Rightarrow> 1 / 10 ^ 6 \<le> v \<and> v \<le> max 5 seed
    | Inl e \<Rightarrow> e = ValueError msg_positive \<or> e = ValueError msg_option)"
proof -
  let ?np = "newton_phase target S K T r q option seed tol max_iter"
  let ?bp = "bisection_phase target S K T r q option tol"
  have bis: "(case ?bp of Inr v \<Rightarrow> 1 / 10 ^ 6 \<le> v \<and> v \<le> max 5 seed
    | Inl e \<Rightarrow> e = ValueError msg_positive \<or> e = ValueError msg_option)"
  proof (cases ?bp)
    case (Inl e)
    then show ?thesis
      using bisect_spec_errors [of "\<lambda>s. bs_price S K T r s q option" target tol 200 "1 / 10 ^ 6" 5 e]
      by (auto simp: bisection_phase_spec dest: bs_price_errors)
  next
    case (Inr v)
    then show ?thesis
      using bisect_spec_range [of "\<lambda>s. bs_price S K T r s q option" target tol 200 "1 / 10 ^ 6" 5 v]
      by (simp add: bisection_phase_spec le_max_iff_disj)
  qed
  show ?thesis
  proof (cases ?np)
    case (Next s)
    with bis show ?thesis by (simp add: implied_vol_def)
  next
    case (Break s)
    with bis show ?thesis by (simp add: implied_vol_def)
  next
    case (Return v)
    then have "1 / 10 ^ 6 \<le> v \<and> v \<le> max 5 seed"
      unfolding newton_phase_def
      by (rule newton_loop_Return) simp_all
    with Return show ?thesis by (simp add: implied_vol_def)
  next
    case (Raise e)
    then have "e = ValueError msg_positive \<or> e = ValueError msg_option"
      unfolding newton_phase_def
      by (auto dest!: for_range_Raise newton_body_Raise)
    with Raise show ?thesis by (simp add: implied_vol_def)
  qed
qed

section \<open>Counting the pricing calls\<close>

lemma newton_body_counted_eq:
  "newton_body_counted target S K T r q option tol sigma c
     = (newton_body target S K T r q option tol sigma, Suc c)"
  by (simp add: newton_body_counted_def newton_body_def bs_price_counted_def Let_def
      split: sum.splits)

lemma bisect_body_counted_eq:
  "bisect_body_counted target S K T r q option tol lohi c
     = (bisect_body target S K T r q option tol lohi, Suc c)"
  by (simp add: bisect_body_counted_def bisect_body_def bs_price_counted_def Let_def
      split: sum.splits prod.splits)

lemma for_range_counted_eq:
  assumes body: "\<And>s c. bc s c = (b s, Suc c)"
  shows "fst (for_range_counted n bc s c) = for_range n b s
           \<and> c \<le> snd (for_range_counted n bc s c)
           \<and> snd (for_range_counted n bc s c) \<le> c + n"
proof (induction n arbitrary: s c)
  case 0
  show ?case by simp
next
  case (Suc n)
  show ?case
  proof (cases "b s")
    case (Next s')
    then have "for_range_counted (Suc n) bc s c = for_range_counted n bc s' (Suc c)"
      and "for_range (Suc n) b s = for_range n b s'"
      by (simp_all add: body)
    with Suc.IH [of s' "Suc c"] show ?thesis by simp
  qed (simp_all add: body)
qed

lemma bisection_phase_counted_eq:
  "fst (bisection_phase_counted target S K T r q option tol c)
     = bisection_phase target S K T r q option tol
   \<and> snd (bisection_phase_counted target S K T r q option tol c) \<le> c + 200"
proof -
  let ?run = "for_range_counted 200 (bisect_body_counted target S K T r q option tol) (1 / 10 ^ 6, 5.0) c"
  obtain f c' where run: "?run = (f, c')" by (cases ?run)
  have "fst ?run = for_range 200 (bisect_body target S K T r q option tol) (1 / 10 ^ 6, 5.0)
          \<and> c \<le> snd ?run \<and> snd ?run \<le> c + 200"
    by (rule for_range_counted_eq [OF bisect_body_counted_eq])
  then have f: "f = for_range 200 (bisect_body target S K T r q option tol) (1 / 10 ^ 6, 5.0)"
    and c': "c' \<le> c + 200"
    unfolding run by simp_all
  show ?thesis
    unfolding bisection_phase_counted_def bisection_phase_def run f [symmetric]
    using c' by (cases f) (simp_all split: prod.splits)
qed

lemma implied_vol_counted_eq:
  "fst (implied_vol_counted target S K T r q option seed tol max_iter)
     = implied_vol target S K T r q option seed tol max_iter
   \<and> snd (implied_vol_counted target S K T r q option seed tol max_iter) \<le> nat max_iter + 200"
proof -
  let ?run = "for_range_counted (nat max_iter) (newton_body_counted target S K T r q option tol)
                (max (1 / 10 ^ 6) seed) 0"
  obtain f c where run: "?run = (f, c)" by (cases ?run)
  have "fst ?run = for_range (nat max_iter) (newton_body target S K T r q option tol)
                      (max (1 / 10 ^ 6) seed)
          \<and> 0 \<le> snd ?run \<and> snd ?run \<le> 0 + nat max_iter"
    by (rule for_range_counted_eq [OF newton_body_counted_eq])
  then have f: "f = newton_phase target S K T r q option seed tol max_iter" and c: "c \<le> nat max_iter"
    unfolding run newton_phase_def by simp_all
  have bis: "fst (bisection_phase_counted target S K T r q option tol c)
               = bisection_phase target S K T r q option tol"
    "snd (bisection_phase_counted target S K T r q option tol c) \<le> nat max_iter + 200"
    using bisection_phase_counted_eq [of target S K T r q option tol c] c by simp_all
  show ?thesis
    unfolding implied_vol_counted_def implied_vol_def run f [symmetric]
    using bis c by (cases f) simp_all
qed

lemma bs_price_invalid:
  "S \<le> 0 \<or> K \<le> 0 \<or> T \<le> 0 \<or> sigma \<le> 0 \<Longrightarrow>
   bs_price S K T r sigma q option = Inl (ValueError msg_positive)"
  by (simp add: bs_price_def d1_d2_invalid)

lemma bs_greeks_invalid:
  "S \<le> 0 \<or> K \<le> 0 \<or> T \<le> 0 \<or> sigma \<le> 0 \<Longrightarrow>
   bs_greeks S K T r sigma q option = Inl (ValueError msg_positive)"
  by (simp add: bs_greeks_def d1_d2_invalid)

lemma implied_vol_counted_invalid:
  assumes "S \<le> 0 \<or> K \<le> 0 \<or> T \<le> 0" and "1 \<le> max_iter"
  shows "implied_vol_counted target S K T r q option seed tol max_iter
           = (Inl (ValueError msg_positive), 1)"
proof -
  from assms(2) obtain m where m: "nat max_iter = Suc m"
    by (cases "nat max_iter") auto
  have "bs_price S K T r sigma q option = Inl (ValueError msg_positive)" for sigma
    using assms(1) by (intro bs_price_invalid) auto
  then have "newton_body_counted target S K T r q option tol sigma c
               = (Raise (ValueError msg_positive), Suc c)" for sigma c
    by (simp add: newton_body_counted_def bs_price_counted_def)
  then show ?thesis
    by (simp add: implied_vol_counted_def m)
qed

section \<open>A run that stops at its first Newton step\<close>

lemma erf_abs_bound: "\<bar>erf x\<bar> \<le> 2 / sqrt pi * (\<bar>x\<bar> * exp (x\<^sup>2))"
proof -
  have sn: "summable (\<lambda>n. norm (erf_term x n))"
  proof (rule summable_comparison_test')
    show "summable (\<lambda>n. \<bar>x\<bar> * (inverse (fact n) * (x\<^sup>2) ^ n))"
      by (intro summable_mult summable_exp)
    show "\<And>n. n \<ge> 0 \<Longrightarrow> norm (norm (erf_term x n)) \<le> \<bar>x\<bar> * (inverse (fact n) * (x\<^sup>2) ^ n)"
      using erf_term_bound by simp
  qed
  have "norm (\<Sum>n. erf_term x n) \<le> (\<Sum>n. norm (erf_term x n))"
    by (rule summable_norm [OF sn])
  also have "\<dots> \<le> (\<Sum>n. \<bar>x\<bar> * (inverse (fact n) * (x\<^sup>2) ^ n))"
    by (intro suminf_le sn summable_mult summable_exp erf_term_bound)
  also have "\<dots> = \<bar>x\<bar> * (\<Sum>n. inverse (fact n) * (x\<^sup>2) ^ n)"
    by (intro suminf_mult summable_exp)
  also have "(\<Sum>n. inverse (fact n) * (x\<^sup>2) ^ n) = exp (x\<^sup>2)"
    by (simp add: exp_def)
  finally have "\<bar>\<Sum>n. erf_term x n\<bar> \<le> \<bar>x\<bar> * exp (x\<^sup>2)"
    by simp
  then have "2 / sqrt pi * \<bar>\<Sum>n. erf_term x n\<bar> \<le> 2 / sqrt pi * (\<bar>x\<bar> * exp (x\<^sup>2))"
    by (intro mult_left_mono) simp_all
  then show ?thesis
    by (simp add: erf_def abs_mult)
qed

lemma erf_small:
  assumes "\<bar>x\<bar> \<le> 1 / 2"
  shows "\<bar>erf x\<bar> < 1"
proof -
  have x2: "x\<^sup>2 \<le> 1 / 4"
    using assms abs_le_square_iff [of x "1 / 2"] by (simp add: power2_eq_square)
  have "exp (x\<^sup>2) \<le> exp (1 / 4)"
    using x2 by simp
  also have "exp (1 / 4 :: real) \<le> 1 + 1 / 4 + (1 / 4)\<^sup>2"
    by (rule exp_bound) simp_all
  finally have e: "exp (x\<^sup>2) \<le> 21 / 16"
    by (simp add: power2_eq_square)
  have "\<bar>x\<bar> * exp (x\<^sup>2) \<le> 1 / 2 * (21 / 16)"
    using assms e by (intro mult_mono) simp_all
  then have b: "\<bar>x\<bar> * exp (x\<^sup>2) \<le> 21 / 32"
    by simp
  have "(11 / 8)\<^sup>2 < pi"
    using pi_ge_two by (simp add: power2_eq_square)
  then have "sqrt ((11 / 8)\<^sup>2) < sqrt pi"
    by (simp only: real_sqrt_less_iff)
  then have sp: "11 / 8 < sqrt pi"
    by simp
  have "2 / sqrt pi * (\<bar>x\<bar> * exp (x\<^sup>2)) \<le> 2 / sqrt pi * (21 / 32)"
    using b by (intro mult_left_mono) simp_all
  also have "\<dots> < 1"
    using sp by (simp add: field_simps)
  finally have "2 / sqrt pi * (\<bar>x\<bar> * exp (x\<^sup>2)) < 1" .
  with erf_abs_bound [of x] show ?thesis
    by (rule le_less_trans)
qed

lemma atm_call_value:
  assumes "0 < T" "0 < s"
  shows "closed_form Call 1 1 T 0 s 0 = erf (s * sqrt T / 2 / sqrt 2)"
proof -
  have "T / sqrt T = sqrt T"
    using assms by (simp add: real_div_sqrt)
  then have "s * (T / sqrt T) / 2 = s * sqrt T / 2"
    by simp
  moreover have "(0.5 * s\<^sup>2 * T) / (s * sqrt T) = s * (T / sqrt T) / 2"
    using assms by (simp add: power2_eq_square)
  ultimately have d1: "d1_closed 1 1 T 0 s 0 = s * sqrt T / 2"
    by (simp add: d1_closed_def)
  have d2: "d2_closed 1 1 T 0 s 0 = - (s * sqrt T / 2)"
    by (simp add: d2_closed_def d1)
  show ?thesis
    by (simp add: d1 d2 Phi_minus) (simp add: Phi_def field_simps)
qed

lemma atm_call_small:
  assumes "0 < s" "s \<le> 10"
  shows "\<bar>closed_form Call 1 1 (1 / 100) 0 s 0\<bar> < 1"
proof -
  have sq: "sqrt (1 / 100) = 1 / 10"
    by (rule real_sqrt_unique) (simp_all add: power2_eq_square)
  have "1 \<le> sqrt 2"
    by simp
  then have "s / 20 / sqrt 2 \<le> s / 20 / 1"
    using assms by (intro divide_left_mono) simp_all
  moreover have "s / 20 / 1 \<le> 1 / 2"
    using assms by simp
  ultimately have le: "s / 20 / sqrt 2 \<le> 1 / 2"
    by (rule order_trans)
  have eq: "s * sqrt (1 / 100) / 2 / sqrt 2 = s / 20 / sqrt 2"
    unfolding sq by simp
  have "0 \<le> s / 20 / sqrt 2"
    using assms by simp
  then have "\<bar>s / 20 / sqrt 2\<bar> \<le> 1 / 2"
    using le by (simp only: abs_of_nonneg)
  then have "\<bar>s * sqrt (1 / 100) / 2 / sqrt 2\<bar> \<le> 1 / 2"
    by (simp only: eq)
  then have "\<bar>erf (s * sqrt (1 / 100) / 2 / sqrt 2)\<bar> < 1"
    by (rule erf_small)
  moreover have "closed_form Call 1 1 (1 / 100) 0 s 0 = erf (s * sqrt (1 / 100) / 2 / sqrt 2)"
    using assms by (intro atm_call_value) simp_all
  ultimately show ?thesis
    by simp
qed

lemma newton_first_step_returns:
  assumes "0 < seed" "seed \<le> 10" "1 / 10 ^ 6 \<le> seed" "1 \<le> max_iter"
  shows "implied_vol 0 1 1 (1 / 100) 0 0 ''call'' seed 1 max_iter = Inr seed"
proof -
  from assms(4) obtain m where m: "nat max_iter = Suc m"
    by (cases "nat max_iter") auto
  have s: "max (1 / 10 ^ 6) seed = seed"
    using assms by (simp add: max_def)
  have "bs_price 1 1 (1 / 100) 0 seed 0 (tag Call) = Inr (closed_form Call 1 1 (1 / 100) 0 seed 0)"
    using assms by (intro bs_price_valid) simp_all
  then have "newton_body 0 1 1 (1 / 100) 0 0 ''call'' 1 seed = Return (max (1 / 10 ^ 12) seed)"
    using atm_call_small [OF assms(1,2)] by (simp add: newton_body_def)
  moreover have "max (1 / 10 ^ 12) seed = seed"
    using assms by (simp add: max_def)
  ultimately have body: "newton_body 0 1 1 (1 / 100) 0 0 ''call'' 1 seed = Return seed"
    by simp
  show ?thesis
    unfolding implied_vol_def newton_phase_def m s by (simp add: body)
qed

section \<open>The gate on floats\<close>

text \<open>On finite floats the test of line 12 is the test of \<open>d1_d2\<close>.\<close>

lemma gate_raises_Finite:
  "gate_raises (Finite S) (Finite K) (Finite T) (Finite sigma)
     = list_ex (\<lambda>v. v \<le> 0) [S, K, T, sigma]"
  by (simp add: gate_raises_def)

lemma gate_raises_d1_d2:
  "gate_raises (Finite S) (Finite K) (Finite T) (Finite sigma)
     = (d1_d2 S K T r sigma q = Inl (ValueError msg_positive))"
  by (simp add: gate_raises_def d1_d2_def Let_def)

section \<open>The claims\<close>

text \<open>
  Claim C2. The Newton phase of \<open>implied_vol\<close> is the specification's Newton phase: it
  starts from \<open>max 1e-6 seed\<close> with a budget of \<open>max_iter\<close> steps; a step prices at the
  current guess and returns \<open>max 1e-12 sigma\<close> when the price is within \<open>tol\<close> of the
  target; otherwise a vega below \<open>1e-12\<close> ends the phase and hands over to the bisection,
  and any other vega moves the guess to \<open>sigma - (price - target) / vega\<close> clamped into
  \<open>[1e-6, 5]\<close>; a used-up budget hands over to the bisection too. An error of the pricer
  ends the solver with that error.
\<close>

theorem newton_phase_follows_spec:
  "(case newton_spec (\<lambda>s. bs_price S K T r s q option) (vega_of S K T r q option)
           target tol (nat max_iter) (max (1 / 10 ^ 6) seed) of
      Converged v \<Rightarrow>
        newton_phase target S K T r q option seed tol max_iter = Return v
        \<and> implied_vol target S K T r q option seed tol max_iter = Inr v
    | FallThrough \<Rightarrow>
        falls_through (newton_phase target S K T r q option seed tol max_iter)
        \<and> implied_vol target S K T r q option seed tol max_iter
            = bisection_phase target S K T r q option tol
    | Failed e \<Rightarrow>
        newton_phase target S K T r q option seed tol max_iter = Raise e
        \<and> implied_vol target S K T r q option seed tol max_iter = Inl e)"
proof -
  let ?spec = "newton_spec (\<lambda>s. bs_price S K T r s q option) (vega_of S K T r q option)
                 target tol (nat max_iter) (max (1 / 10 ^ 6) seed)"
  let ?code = "for_range (nat max_iter) (newton_body target S K T r q option tol)
                 (max (1 / 10 ^ 6) seed)"
  note loop = newton_loop_refines [where S = S and K = K and T = T and r = r and q = q
      and option = option and target = target and tol = tol and n = "nat max_iter"
      and sigma = "max (1 / 10 ^ 6) seed"]
  show ?thesis
  proof (cases ?spec)
    case (Converged v)
    with loop have "?code = Return v" by simp
    with Converged show ?thesis
      by (simp add: newton_phase_def implied_vol_def)
  next
    case FallThrough
    with loop have "falls_through ?code" by simp
    with FallThrough show ?thesis
      unfolding newton_phase_def implied_vol_def
      by (cases ?code) simp_all
  next
    case (Failed e)
    with loop have "?code = Raise e" by simp
    with Failed show ?thesis
      by (simp add: newton_phase_def implied_vol_def)
  qed
qed

theorem newton_phase_follows_spec_witness:
  "falls_through (newton_phase 10 100 100 1 (5 / 100) 0 ''call'' (2 / 10) (1 / 10 ^ 8) 0)
   \<and> implied_vol 10 100 100 1 (5 / 100) 0 ''call'' (2 / 10) (1 / 10 ^ 8) 0
       = bisection_phase 10 100 100 1 (5 / 100) 0 ''call'' (1 / 10 ^ 8)
   \<and> newton_phase 10 100 100 0 (5 / 100) 0 ''call'' (2 / 10) (1 / 10 ^ 8) 100
       = Raise (ValueError msg_positive)"
  using newton_phase_follows_spec [where S = 100 and K = 100 and T = 1 and r = "5 / 100"
      and q = 0 and option = "''call''" and target = 10 and tol = "1 / 10 ^ 8"
      and max_iter = 0 and seed = "2 / 10"]
    newton_phase_follows_spec [where S = 100 and K = 100 and T = 0 and r = "5 / 100"
      and q = 0 and option = "''call''" and target = 10 and tol = "1 / 10 ^ 8"
      and max_iter = 100 and seed = "2 / 10"]
    bs_price_invalid [where S = 100 and K = 100 and T = 0 and sigma = "2 / 10"
      and r = "5 / 100" and q = 0 and option = "''call''"]
  by (simp add: eval_nat_numeral max_def)

text \<open>
  Claim C3. The bisection phase of \<open>implied_vol\<close> is the specification's bisection with
  200 steps on the bracket \<open>[1e-6, 5]\<close>: a step prices at the midpoint, returns the midpoint
  when the price is within \<open>tol\<close> of the target, moves \<open>hi\<close> to the midpoint when the
  price is above the target and \<open>lo\<close> otherwise; after the last step the answer is the
  midpoint of the bracket. The phase runs only when the Newton phase has neither returned
  nor raised, and for strictly positive \<open>S\<close>, \<open>K\<close>, \<open>T\<close> and a known option it always
  answers with a volatility.
\<close>

theorem bisection_phase_follows_spec:
  "bisection_phase target S K T r q option tol
     = bisect_spec (\<lambda>s. bs_price S K T r s q option) target tol 200 (1 / 10 ^ 6) 5
   \<and> implied_vol target S K T r q option seed tol max_iter
       = (case newton_phase target S K T r q option seed tol max_iter of
            Return v \<Rightarrow> Inr v
          | Raise e \<Rightarrow> Inl e
          | Next sigma \<Rightarrow>
              bisect_spec (\<lambda>s. bs_price S K T r s q option) target tol 200 (1 / 10 ^ 6) 5
          | Break sigma \<Rightarrow>
              bisect_spec (\<lambda>s. bs_price S K T r s q option) target tol 200 (1 / 10 ^ 6) 5)
   \<and> (0 < S \<and> 0 < K \<and> 0 < T \<and> (option = ''call'' \<or> option = ''put'')
        \<longrightarrow> (\<exists>v. bisection_phase target S K T r q option tol = Inr v))"
proof (intro conjI impI)
  show spec: "bisection_phase target S K T r q option tol
     = bisect_spec (\<lambda>s. bs_price S K T r s q option) target tol 200 (1 / 10 ^ 6) 5"
    by (rule bisection_phase_spec)
  show "implied_vol target S K T r q option seed tol max_iter
       = (case newton_phase target S K T r q option seed tol max_iter of
            Return v \<Rightarrow> Inr v
          | Raise e \<Rightarrow> Inl e
          | Next sigma \<Rightarrow>
              bisect_spec (\<lambda>s. bs_price S K T r s q option) target tol 200 (1 / 10 ^ 6) 5
          | Break sigma \<Rightarrow>
              bisect_spec (\<lambda>s. bs_price S K T r s q option) target tol 200 (1 / 10 ^ 6) 5)"
    unfolding implied_vol_def spec ..
  assume valid: "0 < S \<and> 0 < K \<and> 0 < T \<and> (option = ''call'' \<or> option = ''put'')"
  then obtain ot where ot: "option = tag ot"
    by (metis tag.simps)
  show "\<exists>v. bisection_phase target S K T r q option tol = Inr v"
  proof (cases "bisection_phase target S K T r q option tol")
    case (Inr v)
    then show ?thesis by blast
  next
    case (Inl e)
    then have "bisect_spec (\<lambda>s. bs_price S K T r s q option) target tol 200 (1 / 10 ^ 6) 5 = Inl e"
      by (simp only: spec)
    then have "\<exists>s. 1 / 10 ^ 6 \<le> s \<and> s \<le> 5 \<and> bs_price S K T r s q option = Inl e"
      by (rule bisect_spec_errors) simp
    then obtain s :: real where s: "1 / 10 ^ 6 \<le> s" and err: "bs_price S K T r s q option = Inl e"
      by blast
    from s have "0 < s"
      by (rule less_le_trans [rotated]) simp
    with valid have "bs_price S K T r s q (tag ot) = Inr (closed_form ot S K T r s q)"
      by (intro bs_price_valid) simp_all
    with err show ?thesis
      by (simp add: ot)
  qed
qed

theorem bisection_phase_follows_spec_witness:
  "(0::real) < 100 \<and> (0::real) < 1
   \<and> (\<exists>v. bisection_phase 10 100 100 1 (5 / 100) 0 ''call'' (1 / 10 ^ 8) = Inr v)"
  using bisection_phase_follows_spec [where S = 100 and K = 100 and T = 1 and r = "5 / 100"
      and q = 0 and option = "''call''" and target = 10 and tol = "1 / 10 ^ 8"
      and max_iter = 100 and seed = "2 / 10", THEN conjunct2, THEN conjunct2]
  by simp

text \<open>
  Claim C4 fails on the code at a NaN input. NaN is not strictly positive, yet the test
  \<open>v <= 0\<close> of line 12 is false for it: the gate does not raise, and the formulas are
  evaluated on NaN. The message of line 13 asks for inputs \<open>> 0\<close>, which NaN is not.
\<close>

theorem nan_passes_validation_gate:
  "\<not> gt_zero NaN \<and> \<not> gate_raises NaN (Finite 100) (Finite 1) (Finite (2 / 10))"
  by (simp add: gate_raises_def)

text \<open>
  Claim C5, as stated, fails: the option type is a string, \<open>bs_price\<close> checks it when it
  runs and raises for a string other than \<open>call\<close> and \<open>put\<close>, while \<open>bs_greeks\<close> on the
  same arguments returns the Greeks of a put.
\<close>

theorem greeks_skips_option_check_counterexample:
  "bs_price 100 100 1 (5 / 100) (2 / 10) 0 ''straddle'' = Inl (ValueError msg_option)
   \<and> \<not> isl (bs_greeks 100 100 1 (5 / 100) (2 / 10) 0 ''straddle'')
   \<and> bs_greeks 100 100 1 (5 / 100) (2 / 10) 0 ''straddle''
       = bs_greeks 100 100 1 (5 / 100) (2 / 10) 0 ''put''"
proof -
  have "d1_d2 100 100 1 (5 / 100) (2 / 10) 0
          = Inr (d1_closed 100 100 1 (5 / 100) (2 / 10) 0, d2_closed 100 100 1 (5 / 100) (2 / 10) 0)"
    by (rule d1_d2_valid) simp_all
  then show ?thesis
    by (simp add: bs_price_def bs_greeks_def Let_def)
qed

text \<open>
  Claim C5 (amended). \<open>bs_greeks\<close> fails exactly as \<open>bs_price\<close> does at the validation
  gate: when one of \<open>S\<close>, \<open>K\<close>, \<open>T\<close>, \<open>sigma\<close> is \<open>\<le> 0\<close> both end with the gate's
  error, for every option string, and whatever \<open>d1_d2\<close> raises is what both of them
  raise. The option type is a string that \<open>bs_price\<close> checks when it runs: it returns a
  price only for \<open>call\<close> and \<open>put\<close>.
\<close>

theorem greeks_price_same_gate:
  "(S \<le> 0 \<or> K \<le> 0 \<or> T \<le> 0 \<or> sigma \<le> 0 \<longrightarrow>
      bs_greeks S K T r sigma q option = Inl (ValueError msg_positive)
      \<and> bs_price S K T r sigma q option = Inl (ValueError msg_positive))
   \<and> (\<forall>e. d1_d2 S K T r sigma q = Inl e \<longrightarrow>
      bs_greeks S K T r sigma q option = Inl e \<and> bs_price S K T r sigma q option = Inl e)
   \<and> (\<forall>p. bs_price S K T r sigma q option = Inr p \<longrightarrow> option = ''call'' \<or> option = ''put'')"
proof (intro conjI impI allI)
  assume inv: "S \<le> 0 \<or> K \<le> 0 \<or> T \<le> 0 \<or> sigma \<le> 0"
  then show "bs_greeks S K T r sigma q option = Inl (ValueError msg_positive)"
    by (rule bs_greeks_invalid)
  from inv show "bs_price S K T r sigma q option = Inl (ValueError msg_positive)"
    by (rule bs_price_invalid)
next
  fix e
  assume gate: "d1_d2 S K T r sigma q = Inl e"
  then show "bs_greeks S K T r sigma q option = Inl e"
    by (simp add: bs_greeks_def)
  from gate show "bs_price S K T r sigma q option = Inl e"
    by (simp add: bs_price_def)
next
  fix p
  assume "bs_price S K T r sigma q option = Inr p"
  then show "option = ''call'' \<or> option = ''put''"
    by (cases "d1_d2 S K T r sigma q")
      (auto simp: bs_price_def Let_def split: if_splits)
qed

theorem greeks_price_same_gate_witness:
  "((100::real) \<le> 0 \<or> (100::real) \<le> 0 \<or> (0::real) \<le> 0 \<or> (2 / 10 :: real) \<le> 0)
   \<and> d1_d2 100 100 0 (5 / 100) (2 / 10) 0 = Inl (ValueError msg_positive)
   \<and> bs_greeks 100 100 0 (5 / 100) (2 / 10) 0 ''call'' = Inl (ValueError msg_positive)
   \<and> bs_price 100 100 0 (5 / 100) (2 / 10) 0 ''call'' = Inl (ValueError msg_positive)
   \<and> bs_price 100 100 1 (5 / 100) (2 / 10) 0 ''put''
       = Inr (closed_form Put 100 100 1 (5 / 100) (2 / 10) 0)
   \<and> (''put'' = ''call'' \<or> ''put'' = ''put'')"
proof -
  have gate: "d1_d2 100 100 0 (5 / 100) (2 / 10) 0 = Inl (ValueError msg_positive)"
    by (rule d1_d2_invalid) simp
  have price: "bs_price 100 100 1 (5 / 100) (2 / 10) 0 (tag Put)
                 = Inr (closed_form Put 100 100 1 (5 / 100) (2 / 10) 0)"
    by (rule bs_price_valid) simp_all
  from greeks_price_same_gate [where S = 100 and K = 100 and T = 0 and sigma = "2 / 10"
      and r = "5 / 100" and q = 0 and option = "''call''"]
    greeks_price_same_gate [where S = 100 and K = 100 and T = 1 and sigma = "2 / 10"
      and r = "5 / 100" and q = 0 and option = "''put''"]
    gate price
  show ?thesis by simp
qed

text \<open>
  Claim C6, as stated, fails: the seed is floored at \<open>1e-6\<close> but not capped, so a seed of
  \<open>6\<close> whose price is within the tolerance of the target is returned as it is.
\<close>

theorem seed_above_five_counterexample:
  "implied_vol 0 1 1 (1 / 100) 0 0 ''call'' 6 1 100 = Inr 6
   \<and> \<not> ((0::real) < 6 \<and> (6::real) \<le> 5)"
proof -
  have "implied_vol 0 1 1 (1 / 100) 0 0 ''call'' 6 1 100 = Inr 6"
    by (rule newton_first_step_returns) simp_all
  then show ?thesis by simp
qed

text \<open>
  Claim C6 (amended). Every volatility that \<open>implied_vol\<close> returns lies in the interval
  \<open>(0, max 5 seed]\<close>, hence in \<open>(0, 5]\<close> whenever \<open>seed \<le> 5\<close>; this holds for every seed,
  tolerance and iteration budget.
\<close>

theorem implied_vol_range:
  "implied_vol target S K T r q option seed tol max_iter = Inr v \<Longrightarrow>
   0 < v \<and> v \<le> max 5 seed \<and> (seed \<le> 5 \<longrightarrow> v \<le> 5)"
proof -
  assume run: "implied_vol target S K T r q option seed tol max_iter = Inr v"
  with implied_vol_result [where target = target and S = S and K = K and T = T and r = r
      and q = q and option = option and seed = seed and tol = tol and max_iter = max_iter]
  have low: "1 / 10 ^ 6 \<le> v" and up: "v \<le> max 5 seed"
    by simp_all
  from low have "0 < v"
    by (intro less_le_trans [of 0 "1 / 10 ^ 6" v]) simp_all
  moreover from up have "v \<le> 5" if "seed \<le> 5"
    using that by simp
  ultimately show ?thesis
    using up by simp
qed

theorem implied_vol_range_witness:
  "implied_vol 0 1 1 (1 / 100) 0 0 ''call'' (2 / 10) 1 100 = Inr (2 / 10)
   \<and> (2 / 10 :: real) \<le> 5
   \<and> (0::real) < 2 / 10 \<and> (2 / 10 :: real) \<le> max 5 (2 / 10) \<and> (2 / 10 :: real) \<le> 5"
proof -
  have run: "implied_vol 0 1 1 (1 / 100) 0 0 ''call'' (2 / 10) 1 100 = Inr (2 / 10)"
    by (rule newton_first_step_returns) simp_all
  from implied_vol_range [OF run] run
  show ?thesis by simp
qed

text \<open>
  Claim C7. Put-call parity: for strictly positive \<open>S\<close>, \<open>K\<close>, \<open>T\<close>, \<open>sigma\<close> the
  call price and the put price both exist and their difference is
  \<open>S * exp (- q * T) - K * exp (- r * T)\<close>, exactly in real arithmetic and so within
  \<open>1e-6\<close>.
\<close>

theorem put_call_parity:
  assumes "0 < S" "0 < K" "0 < T" "0 < sigma"
  shows "\<exists>c p. bs_price S K T r sigma q ''call'' = Inr c
           \<and> bs_price S K T r sigma q ''put'' = Inr p
           \<and> c - p = S * exp (- q * T) - K * exp (- r * T)
           \<and> \<bar>(c - p) - (S * exp (- q * T) - K * exp (- r * T))\<bar> < 1 / 10 ^ 6"
proof -
  have "bs_price S K T r sigma q ''call'' = Inr (closed_form Call S K T r sigma q)"
    using bs_price_valid [OF assms, of r q Call] by simp
  moreover have "bs_price S K T r sigma q ''put'' = Inr (closed_form Put S K T r sigma q)"
    using bs_price_valid [OF assms, of r q Put] by simp
  moreover have "closed_form Call S K T r sigma q - closed_form Put S K T r sigma q
                   = S * exp (- q * T) - K * exp (- r * T)"
    using parity_closed [of S K T r sigma q] by simp
  ultimately show ?thesis by simp
qed

theorem put_call_parity_witness:
  "(0::real) < 100 \<and> (0::real) < 1 \<and> (0::real) < 2 / 10
   \<and> (\<exists>c p. bs_price 100 100 1 (5 / 100) (2 / 10) 0 ''call'' = Inr c
          \<and> bs_price 100 100 1 (5 / 100) (2 / 10) 0 ''put'' = Inr p
          \<and> c - p = 100 - 100 * exp (- (5 / 100)))"
  using put_call_parity [of 100 100 1 "2 / 10" "5 / 100" 0] by auto

text \<open>
  Claim C9. \<open>implied_vol\<close> always terminates, and it calls \<open>bs_price\<close> at most
  \<open>max_iter\<close> times in the Newton phase and at most 200 times in the bisection: at most
  \<open>max_iter + 200\<close> calls in all, which is 300 for the default \<open>max_iter = 100\<close>. Both
  loops recurse on their remaining range, so the model is a total function; the counted
  solver returns the result of the plain one together with the number of calls.
\<close>

theorem solver_pricing_calls_bounded:
  "fst (implied_vol_counted target S K T r q option seed tol max_iter)
     = implied_vol target S K T r q option seed tol max_iter
   \<and> snd (implied_vol_counted target S K T r q option seed tol max_iter) \<le> nat max_iter + 200
   \<and> snd (implied_vol_counted target S K T r q option seed tol 100) \<le> 300"
  using implied_vol_counted_eq [where target = target and S = S and K = K and T = T and r = r
      and q = q and option = option and seed = seed and tol = tol and max_iter = max_iter]
    implied_vol_counted_eq [where target = target and S = S and K = K and T = T and r = r
      and q = q and option = option and seed = seed and tol = tol and max_iter = 100]
  by simp

end
